theory Spec2Isabelle
  imports Main "HOL-Library.List_Lexorder"
begin

section \<open>Strings, errors and the Python built-ins the script calls\<close>

text \<open>
  A Python \<open>str\<close> is a sequence of Unicode code points, and \<open>len\<close> counts code points:
  a string is a list of natural numbers. \<open>cps\<close> writes an ASCII literal as its code points.
\<close>

type_synonym ustr = "nat list"

abbreviation cps :: "string \<Rightarrow> ustr" where
  "cps s \<equiv> map of_char s"

datatype error = ValueError | IndexError | KeyError

text \<open>
  Two tables of the Unicode database are parameters of the model, since no source file
  holds them: \<open>lower :: ustr \<Rightarrow> ustr\<close> stands for \<open>str.lower\<close>, and
  \<open>decimal :: nat \<Rightarrow> nat option\<close> gives the digit value of a decimal digit (what the
  pattern \<open>\d\<close> matches and \<open>int\<close> reads). Their Latin-1 instances, for evaluation at
  concrete inputs, follow.
\<close>

definition lower_cp :: "nat \<Rightarrow> nat" where
  "lower_cp c = (if (65 \<le> c \<and> c \<le> 90) \<or> (192 \<le> c \<and> c \<le> 222 \<and> c \<noteq> 215) then c + 32 else c)"

definition lower_latin1 :: "ustr \<Rightarrow> ustr" where
  \<comment> \<open>\<open>str.lower\<close> on code points below 256; every other code point is left as it is\<close>
  "lower_latin1 x = map lower_cp x"

definition upper_cp :: "nat \<Rightarrow> ustr" where
  "upper_cp c =
     (if (97 \<le> c \<and> c \<le> 122) \<or> (224 \<le> c \<and> c \<le> 254 \<and> c \<noteq> 247) then [c - 32]
      else if c = 223 then [83, 83]
      else if c = 181 then [924]
      else if c = 255 then [376]
      else [c])"

definition upper_latin1 :: "ustr \<Rightarrow> ustr" where
  \<comment> \<open>\<open>str.upper\<close> on code points below 256: U+00DF becomes \<open>SS\<close>\<close>
  "upper_latin1 x = concat (map upper_cp x)"

definition decimal_ascii :: "nat \<Rightarrow> nat option" where
  \<comment> \<open>the decimal digits below 256 are \<open>0\<close> to \<open>9\<close>\<close>
  "decimal_ascii c = (if 48 \<le> c \<and> c \<le> 57 then Some (c - 48) else None)"

definition is_space :: "nat \<Rightarrow> bool" where
  \<comment> \<open>the code points \<open>str.isspace\<close> accepts, which \<open>str.strip\<close> removes\<close>
  "is_space c \<longleftrightarrow>
     (9 \<le> c \<and> c \<le> 13) \<or> (28 \<le> c \<and> c \<le> 32) \<or> c = 133 \<or> c = 160 \<or> c = 5760
     \<or> (8192 \<le> c \<and> c \<le> 8202) \<or> c = 8232 \<or> c = 8233 \<or> c = 8239 \<or> c = 8287
     \<or> c = 12288"

definition py_strip :: "ustr \<Rightarrow> ustr" where
  "py_strip s = rev (dropWhile is_space (rev (dropWhile is_space s)))"

definition is_linebreak :: "nat \<Rightarrow> bool" where
  "is_linebreak c \<longleftrightarrow>
     (10 \<le> c \<and> c \<le> 13) \<or> (28 \<le> c \<and> c \<le> 30) \<or> c = 133 \<or> c = 8232 \<or> c = 8233"

fun splitlines_from :: "ustr \<Rightarrow> ustr \<Rightarrow> ustr list" where
  "splitlines_from cur [] = (if cur = [] then [] else [cur])"
| "splitlines_from cur [c] =
     (if is_linebreak c then [cur] else [cur @ [c]])"
| "splitlines_from cur (c # c' # cs) =
     (if c = 13 \<and> c' = 10 then cur # splitlines_from [] cs
      else if is_linebreak c then cur # splitlines_from [] (c' # cs)
      else splitlines_from (cur @ [c]) (c' # cs))"

definition py_splitlines :: "ustr \<Rightarrow> ustr list" where
  "py_splitlines s = splitlines_from [] s"

fun split_from :: "ustr \<Rightarrow> ustr \<Rightarrow> ustr \<Rightarrow> ustr list" where
  "split_from sep cur [] = [cur]"
| "split_from sep cur (c # cs) =
     (if sep = [] then split_from sep (cur @ [c]) cs
      else if take (length sep) (c # cs) = sep
      then cur # split_from sep [] (drop (length sep) (c # cs))
      else split_from sep (cur @ [c]) cs)"

definition py_split :: "ustr \<Rightarrow> ustr \<Rightarrow> ustr list" where
  \<comment> \<open>\<open>s.split(sep)\<close>; the script's separators are the literals tab and comma-space\<close>
  "py_split s sep = split_from sep [] s"

fun py_join :: "ustr \<Rightarrow> ustr list \<Rightarrow> ustr" where
  "py_join sep [] = []"
| "py_join sep [x] = x"
| "py_join sep (x # y # ys) = x @ sep @ py_join sep (y # ys)"

fun int_digits :: "(nat \<Rightarrow> nat option) \<Rightarrow> nat \<Rightarrow> bool \<Rightarrow> ustr \<Rightarrow> nat option" where
  "int_digits decimal acc after_digit [] = (if after_digit then Some acc else None)"
| "int_digits decimal acc after_digit (c # cs) =
     (if c = 95 then (if after_digit then int_digits decimal acc False cs else None)
      else case decimal c of
             None \<Rightarrow> None
           | Some v \<Rightarrow> int_digits decimal (10 * acc + v) True cs)"

definition int_space :: "nat \<Rightarrow> bool" where
  \<comment> \<open>what \<open>int\<close> skips around the number: ASCII white space and the other Unicode spaces\<close>
  "int_space c \<longleftrightarrow> (9 \<le> c \<and> c \<le> 13) \<or> c = 32 \<or> (128 \<le> c \<and> is_space c)"

definition py_int :: "(nat \<Rightarrow> nat option) \<Rightarrow> ustr \<Rightarrow> error + int" where
  \<comment> \<open>\<open>int(s)\<close> in base ten: an optional sign, then digits with single underscores between
      them (Python 3.6 and later; the limit on the number of digits of Python 3.11 is left out)\<close>
  "py_int decimal s =
     (let t = rev (dropWhile int_space (rev (dropWhile int_space s)));
          neg = (t \<noteq> [] \<and> hd t = 45);
          ds = (if t \<noteq> [] \<and> (hd t = 45 \<or> hd t = 43) then tl t else t)
      in case int_digits decimal 0 False ds of
           None \<Rightarrow> Inl ValueError
         | Some n \<Rightarrow> Inr (if neg then - int n else int n))"

fun digits :: "nat \<Rightarrow> ustr" where
  "digits n = (if n < 10 then [48 + n] else digits (n div 10) @ [48 + n mod 10])"

declare digits.simps [simp del]

definition fmt_int :: "int \<Rightarrow> ustr" where
  \<comment> \<open>the conversion \<open>%i\<close>\<close>
  "fmt_int i = (if i < 0 then 45 # digits (nat (- i)) else digits (nat i))"

fun py_index :: "'a list \<Rightarrow> 'a \<Rightarrow> nat option" where
  \<comment> \<open>\<open>list.index\<close>: the first position of the element, \<open>None\<close> where Python raises\<close>
  "py_index [] x = None"
| "py_index (y # ys) x = (if y = x then Some 0 else map_option Suc (py_index ys x))"

text \<open>
  A \<open>dict\<close> keeps its keys in insertion order, and the script iterates over them: a
  dictionary is an association list. \<open>d[k] = v\<close> replaces the value of a key in place and
  appends a new key at the end; \<open>d[k]\<close> is \<open>map_of d k\<close>, with \<open>None\<close> for \<open>KeyError\<close>.
\<close>

fun setitem :: "('k \<times> 'v) list \<Rightarrow> 'k \<Rightarrow> 'v \<Rightarrow> ('k \<times> 'v) list" where
  "setitem [] k v = [(k, v)]"
| "setitem ((k', v') # d) k v = (if k' = k then (k, v) # d else (k', v') # setitem d k v)"

section \<open>The state of the script\<close>

text \<open>
  The module has two global variables, \<open>data\<close> (the lemma store: surface form to
  \<open>[freq, xlit]\<close>) and \<open>dictionary\<close> (the edge mapping, \<open>{}\<close> at start), and writes
  lines to standard output.
\<close>

type_synonym store = "(ustr \<times> (int \<times> ustr list)) list"

record pstate =
  data :: store
  dictionary :: "(ustr \<times> ustr list) list"
  stdout :: "ustr list"

definition py_print :: "ustr \<Rightarrow> pstate \<Rightarrow> pstate" where
  "py_print line st = st\<lparr>stdout := stdout st @ [line]\<rparr>"

definition initial :: pstate where
  "initial = \<lparr>data = [], dictionary = [], stdout = []\<rparr>"

section \<open>Lemma Store: \<open>read_file\<close>\<close>

definition sub_leading_digit :: "(nat \<Rightarrow> nat option) \<Rightarrow> ustr \<Rightarrow> ustr" where
  \<comment> \<open>\<open>re.sub('^(\d+?).+', r'\1', l)\<close>: the lazy group takes one digit, \<open>.+\<close> takes what
      follows it up to a newline, and the match is replaced by the digit\<close>
  "sub_leading_digit decimal l =
     (case l of
        d # c # rest \<Rightarrow>
          if decimal d \<noteq> None \<and> c \<noteq> 10 then d # dropWhile (\<lambda>c. c \<noteq> 10) rest else l
      | _ \<Rightarrow> l)"

definition strip_digits_spaces :: "ustr \<Rightarrow> ustr" where
  \<comment> \<open>\<open>re.sub('[0-9 ]', '', s)\<close>\<close>
  "strip_digits_spaces s = filter (\<lambda>c. \<not> ((48 \<le> c \<and> c \<le> 57) \<or> c = 32)) s"

definition read_line :: "(nat \<Rightarrow> nat option) \<Rightarrow> ustr \<Rightarrow> error + (ustr \<times> int \<times> ustr list)" where
  \<comment> \<open>the body of the loop over the lines of a \<open>freq\<close> file: the key and the value it stores\<close>
  "read_line decimal l0 =
     (let l = py_strip l0 in
      case py_int decimal (sub_leading_digit decimal l) of
        Inl e \<Rightarrow> Inl e
      | Inr freq \<Rightarrow>
          (let lemma = strip_digits_spaces (hd (py_split l [9])) in
           case py_split l [9] of
             f0 # f1 # fs \<Rightarrow> Inr (lemma, freq, py_split (butlast (tl f1)) (cps '', ''))
           | _ \<Rightarrow> Inl IndexError))"

fun read_freq_lines :: "(nat \<Rightarrow> nat option) \<Rightarrow> store \<Rightarrow> ustr list \<Rightarrow> error + store" where
  "read_freq_lines decimal ddict [] = Inr ddict"
| "read_freq_lines decimal ddict (l # ls) =
     (case read_line decimal l of
        Inl e \<Rightarrow> Inl e
      | Inr (lemma, freq, xlit) \<Rightarrow> read_freq_lines decimal (setitem ddict lemma (freq, xlit)) ls)"

fun read_plain_lines :: "store \<Rightarrow> ustr list \<Rightarrow> store" where
  "read_plain_lines ddict [] = ddict"
| "read_plain_lines ddict (l # ls) = read_plain_lines (setitem ddict l (0, [])) ls"

definition read_file ::
  "(nat \<Rightarrow> nat option) \<Rightarrow> ustr \<Rightarrow> ustr \<Rightarrow> ustr \<Rightarrow> pstate \<Rightarrow> (error + store) \<times> pstate" where
  \<comment> \<open>\<open>text\<close> is what \<open>f.read()\<close> returns for the file \<open>fname\<close>\<close>
  "read_file decimal fname text format st =
     (let st1 = py_print (cps ''reading file '' @ fname @ cps ''...'') st in
      if format = cps ''freq'' then (read_freq_lines decimal [] (py_splitlines text), st1)
      else (Inr (read_plain_lines [] (py_splitlines text)), st1))"

section \<open>Distance Scorer: \<open>hamming\<close>, \<open>levenshtein\<close>, \<open>score_strings\<close>\<close>

definition hamming :: "'a list \<Rightarrow> 'a list \<Rightarrow> nat" where
  "hamming s1 s2 = sum_list (map (\<lambda>(e1, e2). of_bool (e1 \<noteq> e2)) (zip s1 s2))"

fun lev_inner :: "'a \<Rightarrow> nat list \<Rightarrow> nat list \<Rightarrow> nat \<Rightarrow> 'a list \<Rightarrow> nat list" where
  \<comment> \<open>\<open>for j, c2 in enumerate(s2)\<close>, from position \<open>j\<close> on\<close>
  "lev_inner c1 previous_row current_row j [] = current_row"
| "lev_inner c1 previous_row current_row j (c2 # s2) =
     (let insertions = previous_row ! (j + 1) + 1;
          deletions = current_row ! j + 1;
          substitutions = previous_row ! j + of_bool (c1 \<noteq> c2)
      in lev_inner c1 previous_row
           (current_row @ [min insertions (min deletions substitutions)]) (j + 1) s2)"

fun lev_outer :: "'a list \<Rightarrow> nat list \<Rightarrow> nat \<Rightarrow> 'a list \<Rightarrow> nat list" where
  \<comment> \<open>\<open>for i, c1 in enumerate(s1)\<close>, from position \<open>i\<close> on\<close>
  "lev_outer s2 previous_row i [] = previous_row"
| "lev_outer s2 previous_row i (c1 # s1) =
     lev_outer s2 (lev_inner c1 previous_row [i + 1] 0 s2) (i + 1) s1"

function levenshtein :: "'a list \<Rightarrow> 'a list \<Rightarrow> nat" where
  "levenshtein s1 s2 =
     (if length s1 < length s2 then levenshtein s2 s1
      else if length s2 = 0 then length s1
      else last (lev_outer s2 [0 ..< length s2 + 1] 0 s1))"
  by pat_completeness auto
termination
  by (relation "measure (\<lambda>(s1, s2). if length s1 < length s2 then 1 else 0)") auto

declare levenshtein.simps [simp del]

definition score_strings :: "(ustr \<Rightarrow> ustr) \<Rightarrow> ustr \<Rightarrow> ustr \<Rightarrow> nat" where
  "score_strings lower w1 w2 =
     (if length w1 = length w2 then hamming (lower w1) (lower w2)
      else levenshtein (lower w1) (lower w2))"

section \<open>Spelling Normalizer: \<open>f_xlit\<close>\<close>

definition is_subscript :: "nat \<Rightarrow> bool" where
  \<comment> \<open>the subscript digits U+2080 to U+2089\<close>
  "is_subscript c \<longleftrightarrow> 8320 \<le> c \<and> c \<le> 8329"

fun sub_determinatives :: "ustr \<Rightarrow> ustr" where
  \<comment> \<open>\<open>re.sub\<close> of the three markers and the subscript class by the empty string: at each
      position the alternatives are tried in order, and a match is skipped\<close>
  "sub_determinatives [] = []"
| "sub_determinatives (c # cs) =
     (if take 5 (c # cs) = cps ''{URU}'' then sub_determinatives (drop 4 cs)
      else if take 5 (c # cs) = cps ''{KUR}'' then sub_determinatives (drop 4 cs)
      else if take 4 (c # cs) = cps ''{KI}'' then sub_determinatives (drop 3 cs)
      else if is_subscript c then sub_determinatives cs
      else c # sub_determinatives cs)"

definition f_xlit :: "(ustr \<Rightarrow> ustr) \<Rightarrow> ustr \<Rightarrow> ustr" where
  "f_xlit lower x0 =
     (let x = sub_determinatives (lower x0);
          x = map (\<lambda>c. if c = 46 then 45 else c) (lower x);
          x = filter (\<lambda>c. c \<noteq> 40 \<and> c \<noteq> 41) x;
          x = map (\<lambda>c. if c = 331 then 103 else c) x
      in x)"

section \<open>Overlap Annotator: \<open>get_freq\<close> and \<open>compare_xlits\<close>\<close>

definition strip_label :: "ustr \<Rightarrow> ustr" where
  \<comment> \<open>\<open>re.sub\<close> of the class of en dash, asterisk, space, question mark, square brackets
      and ASCII digits by the empty string\<close>
  "strip_label l =
     filter (\<lambda>c. \<not> (c = 8211 \<or> c = 42 \<or> c = 32 \<or> c = 63 \<or> c = 91 \<or> c = 93 \<or> (48 \<le> c \<and> c \<le> 57))) l"

fun get_freq_loop :: "pstate \<Rightarrow> ustr list \<Rightarrow> ustr list \<Rightarrow> error + ustr list" where
  "get_freq_loop st res [] = Inr res"
| "get_freq_loop st res (l # ls) =
     (case map_of (data st) (strip_label l) of
        None \<Rightarrow> Inl KeyError
      | Some entry \<Rightarrow>
          get_freq_loop st (res @ [l @ cps '' ('' @ fmt_int (fst entry) @ cps '')'']) ls)"

definition get_freq :: "pstate \<Rightarrow> ustr list \<Rightarrow> bool \<Rightarrow> error + ustr list" where
  "get_freq st lemmas show_freqs =
     (if show_freqs then get_freq_loop st [] lemmas else Inr lemmas)"

fun xlits_inner ::
  "(ustr \<Rightarrow> ustr) \<Rightarrow> ustr \<Rightarrow> ustr list \<Rightarrow> (ustr \<times> ustr) list \<Rightarrow> ustr list \<Rightarrow> (ustr \<times> ustr) list" where
  \<comment> \<open>\<open>for t in t_xlits\<close>\<close>
  "xlits_inner lower s s_xlits s_dict [] = s_dict"
| "xlits_inner lower s s_xlits s_dict (t # ts) =
     xlits_inner lower s s_xlits
       (if f_xlit lower t \<in> set (map (f_xlit lower) s_xlits)
        then (case map_of s_dict s of
                None \<Rightarrow> setitem s_dict s (cps ''*'')
              | Some stars \<Rightarrow> setitem s_dict s (stars @ cps ''*''))
        else (case map_of s_dict s of
                None \<Rightarrow> setitem s_dict s []
              | Some stars \<Rightarrow> s_dict))
       ts"

fun xlits_outer ::
  "(ustr \<Rightarrow> ustr) \<Rightarrow> pstate \<Rightarrow> ustr list \<Rightarrow> (ustr \<times> ustr) list \<Rightarrow> ustr list \<Rightarrow> error + (ustr \<times> ustr) list" where
  \<comment> \<open>\<open>for s in suggestions\<close>\<close>
  "xlits_outer lower st t_xlits s_dict [] = Inr s_dict"
| "xlits_outer lower st t_xlits s_dict (s # ss) =
     (case map_of (data st) s of
        None \<Rightarrow> Inl KeyError
      | Some entry \<Rightarrow>
          xlits_outer lower st t_xlits (xlits_inner lower s (snd entry) s_dict t_xlits) ss)"

definition compare_xlits :: "(ustr \<Rightarrow> ustr) \<Rightarrow> pstate \<Rightarrow> ustr \<Rightarrow> ustr list \<Rightarrow> error + ustr list" where
  "compare_xlits lower st target suggestions =
     (case map_of (data st) target of
        None \<Rightarrow> Inl KeyError
      | Some entry \<Rightarrow>
          (case xlits_outer lower st (snd entry) [] suggestions of
             Inl e \<Rightarrow> Inl e
           | Inr s_dict \<Rightarrow> Inr (map (\<lambda>(x, stars). x @ stars) s_dict)))"

section \<open>Candidate Clusterer: \<open>compare\<close>\<close>

function count_loop :: "nat \<Rightarrow> nat \<Rightarrow> nat \<Rightarrow> nat" where
  "count_loop d i j = (if i < d then count_loop d (i + 1) (j + (i + 1)) else j)"
  by pat_completeness auto
termination
  by (relation "measure (\<lambda>(d, i, j). d - i)") auto

declare count_loop.simps [simp del]

definition count_comparisons :: "nat \<Rightarrow> nat" where
  "count_comparisons d = count_loop d 1 1"

fun compare_inner ::
  "(ustr \<Rightarrow> ustr) \<Rightarrow> ustr \<Rightarrow> (ustr \<times> ustr list) list \<Rightarrow> ustr list \<Rightarrow> (ustr \<times> ustr list) list" where
  \<comment> \<open>\<open>for w2 in data[index+1:]\<close>, on the global \<open>dictionary\<close>\<close>
  "compare_inner lower w1 dict [] = dict"
| "compare_inner lower w1 dict (w2 # ws) =
     compare_inner lower w1
       (let x = sort [length w1, length w2] in
        if x ! 1 - x ! 0 > 3 then dict
        else
          (let score = score_strings lower w1 w2;
               min_val = (if length w1 \<ge> 8 then 2 else 1)
           in if score \<le> min_val
              then (case map_of dict w1 of
                      None \<Rightarrow> setitem dict w1 [w2]
                    | Some cands \<Rightarrow> setitem dict w1 (cands @ [w2]))
              else dict))
       ws"

definition in_range :: "nat \<Rightarrow> nat \<Rightarrow> nat \<Rightarrow> bool" where
  \<comment> \<open>\<open>index in range(0, stop, step)\<close>, for a positive step\<close>
  "in_range stop step index \<longleftrightarrow> index < stop \<and> index mod step = 0"

fun compare_outer ::
  "(ustr \<Rightarrow> ustr) \<Rightarrow> ustr list \<Rightarrow> nat \<Rightarrow> ustr list \<Rightarrow> pstate \<Rightarrow> error option \<times> pstate" where
  \<comment> \<open>\<open>for w1 in data\<close>, with the list \<open>data\<close> of all keys as \<open>keys\<close>\<close>
  "compare_outer lower keys step [] st = (None, st)"
| "compare_outer lower keys step (w1 # ws) st =
     (case py_index keys w1 of
        None \<Rightarrow> (Some ValueError, st)
      | Some index \<Rightarrow>
          (let st1 = (if in_range (length keys) step index
                      then py_print (fmt_int (int index) @ cps '' / '' @ fmt_int (int (length keys))) st
                      else st);
               st2 = st1\<lparr>dictionary := compare_inner lower w1 (dictionary st1) (drop (index + 1) keys)\<rparr>
           in compare_outer lower keys step ws st2))"

definition compare :: "(ustr \<Rightarrow> ustr) \<Rightarrow> store \<Rightarrow> pstate \<Rightarrow> error option \<times> pstate" where
  \<comment> \<open>\<open>int(len(data)/100)\<close> is \<open>len(data) div 100\<close>, and \<open>range\<close> raises \<open>ValueError\<close> on
      the step zero\<close>
  "compare lower dict_data st =
     (let data = map fst dict_data;
          st1 = py_print (fmt_int (int (length data)) @ cps '' entries, ''
                  @ fmt_int (int (count_comparisons (length data))) @ cps '' comparisons'') st;
          step = length data div 100
      in if step = 0 then (Some ValueError, st1)
         else compare_outer lower data step data st1)"

section \<open>Reporter: \<open>print_results\<close>, and the script\<close>

fun print_results_loop ::
  "(ustr \<Rightarrow> ustr) \<Rightarrow> bool \<Rightarrow> (ustr \<times> ustr list) list \<Rightarrow> pstate \<Rightarrow> error option \<times> pstate" where
  \<comment> \<open>\<open>for k in dictionary.keys()\<close>, with \<open>dictionary[k]\<close> as \<open>cands\<close>; a list is never
      equal to the string \<open>'_'\<close>, so the first test of the body always fails\<close>
  "print_results_loop lower show_freqs [] st = (None, st)"
| "print_results_loop lower show_freqs ((k, cands) # rest) st =
     (let results = (if cps ''_'' \<in> set cands then filter (\<lambda>x. x \<noteq> cps ''_'') cands else cands) in
      case compare_xlits lower st k results of
        Inl e \<Rightarrow> (Some e, st)
      | Inr filt_res \<Rightarrow>
          (case get_freq st [k] show_freqs of
             Inl e \<Rightarrow> (Some e, st)
           | Inr head \<Rightarrow>
               (case get_freq st filt_res show_freqs of
                  Inl e \<Rightarrow> (Some e, st)
                | Inr labels \<Rightarrow>
                    print_results_loop lower show_freqs rest
                      (py_print (head ! 0 @ [9, 9, 9] @ py_join (cps '' | '') (sort (remdups labels))) st))))"

definition print_results :: "(ustr \<Rightarrow> ustr) \<Rightarrow> bool \<Rightarrow> pstate \<Rightarrow> error option \<times> pstate" where
  "print_results lower show_freqs st = print_results_loop lower show_freqs (dictionary st) st"

definition script :: "(nat \<Rightarrow> nat option) \<Rightarrow> (ustr \<Rightarrow> ustr) \<Rightarrow> ustr \<Rightarrow> error option \<times> pstate" where
  \<comment> \<open>the three statements at the end of the module, on the text of the input file\<close>
  "script decimal lower text =
     (case read_file decimal (cps ''places_with_translit.txt'') text (cps ''freq'') initial of
        (Inl e, st1) \<Rightarrow> (Some e, st1)
      | (Inr d, st1) \<Rightarrow>
          (case compare lower d (st1\<lparr>data := d\<rparr>) of
             (Some e, st2) \<Rightarrow> (Some e, st2)
           | (None, st2) \<Rightarrow> print_results lower True st2))"

section \<open>The edit distance of the specification\<close>

text \<open>
  The specification speaks of the minimum number of single-character insertions, deletions
  and substitutions that transform one string into the other. \<open>edit1 a b\<close>: one such
  operation turns \<open>a\<close> into \<open>b\<close>; \<open>edits n a b\<close>: a sequence of \<open>n\<close> operations does.
\<close>

inductive edit1 :: "'a list \<Rightarrow> 'a list \<Rightarrow> bool" where
  insertion: "edit1 (p @ s) (p @ c # s)"
| deletion: "edit1 (p @ c # s) (p @ s)"
| substitution: "c \<noteq> c' \<Longrightarrow> edit1 (p @ c # s) (p @ c' # s)"

inductive edits :: "nat \<Rightarrow> 'a list \<Rightarrow> 'a list \<Rightarrow> bool" where
  edits_0: "edits 0 a a"
| edits_Suc: "edit1 a b \<Longrightarrow> edits n b c \<Longrightarrow> edits (Suc n) a c"

text \<open>The recurrence of the distance, the link between the two in the proofs.\<close>

fun lev_rec :: "'a list \<Rightarrow> 'a list \<Rightarrow> nat" where
  "lev_rec [] ys = length ys"
| "lev_rec xs [] = length xs"
| "lev_rec (x # xs) (y # ys) =
     min (lev_rec xs (y # ys) + 1) (min (lev_rec (x # xs) ys + 1) (lev_rec xs ys + of_bool (x \<noteq> y)))"

text \<open>The row of the dynamic programme for the prefix \<open>a\<close> of \<open>s1\<close>, up to column \<open>k\<close>.\<close>

definition lev_row :: "'a list \<Rightarrow> 'a list \<Rightarrow> nat \<Rightarrow> nat list" where
  "lev_row s2 a k = map (\<lambda>j. lev_rec a (take j s2)) [0 ..< Suc k]"


section \<open>The other notions of the specification, and inputs for the examples\<close>

text \<open>
  What the proofs use of \<open>str.lower\<close>: its results consist of code points, the set \<open>F\<close>,
  that lowercasing leaves as they are in every string; the hyphen and \<open>g\<close> are among
  them, the capitals \<open>U\<close> and \<open>K\<close> are not.
\<close>

definition lowercases :: "(ustr \<Rightarrow> ustr) \<Rightarrow> nat set \<Rightarrow> bool" where
  "lowercases lower F \<longleftrightarrow>
     (\<forall>x. set (lower x) \<subseteq> F) \<and> (\<forall>z. set z \<subseteq> F \<longrightarrow> lower z = z)
     \<and> 45 \<in> F \<and> 103 \<in> F \<and> 85 \<notin> F \<and> 75 \<notin> F"

text \<open>What \<open>f_xlit\<close> computes from a lowercased string, as the next lemmas show.\<close>

definition normal_form :: "ustr \<Rightarrow> ustr" where
  "normal_form y =
     map (\<lambda>c. if c = 331 then 103 else c)
       (filter (\<lambda>c. c \<noteq> 40 \<and> c \<noteq> 41)
         (map (\<lambda>c. if c = 46 then 45 else c) (filter (\<lambda>c. \<not> is_subscript c) y)))"

text \<open>
  The record of a line as claim C2 words it: three fields between tabs, the frequency the
  whole leading run of digits of the first field, the key the rest of the first field
  without digits and spaces, the spellings the third field without its first and last
  character, split at comma-space.
\<close>

definition spec_record :: "(nat \<Rightarrow> nat option) \<Rightarrow> ustr \<Rightarrow> (ustr \<times> int \<times> ustr list) option" where
  "spec_record decimal l =
     (case py_split l [9] of
        [f1, f2, f3] \<Rightarrow>
          (let run = takeWhile (\<lambda>c. decimal c \<noteq> None) f1 in
           if run = [] then None
           else Some (strip_digits_spaces (dropWhile (\<lambda>c. decimal c \<noteq> None) f1),
                      int (foldl (\<lambda>acc c. 10 * acc + the (decimal c)) 0 run),
                      py_split (butlast (tl f3)) (cps '', '')))
      | _ \<Rightarrow> None)"

text \<open>The line of the module's documentation with the frequency 11.\<close>

definition asdudu :: ustr where
  "asdudu = cps ''     11 Asdudu'' @ [9] @ cps ''[{URU}as-du-di, {KUR}as-du-di]''"

text \<open>
  The candidate list of a lemma in the edge mapping (empty for a lemma that is no key), and
  the rule of the specification for a pair: lengths at most 3 apart and a score within
  the threshold of the first word.
\<close>

definition candidates :: "(ustr \<times> ustr list) list \<Rightarrow> ustr \<Rightarrow> ustr list" where
  "candidates dict w = (case map_of dict w of None \<Rightarrow> [] | Some cands \<Rightarrow> cands)"

definition close_pair :: "(ustr \<Rightarrow> ustr) \<Rightarrow> ustr \<Rightarrow> ustr \<Rightarrow> bool" where
  "close_pair lower w1 w2 \<longleftrightarrow>
     \<bar>int (length w1) - int (length w2)\<bar> \<le> 3
     \<and> score_strings lower w1 w2 \<le> (if length w1 \<ge> 8 then 2 else 1)"

text \<open>
  The number of stars of a candidate, as the specification counts them: the target
  spellings whose normal form is the normal form of a spelling of the candidate.
  \<open>stars_of\<close> reads the stars a candidate has in \<open>s_dict\<close>.
\<close>

definition star_count :: "(ustr \<Rightarrow> ustr) \<Rightarrow> ustr list \<Rightarrow> ustr list \<Rightarrow> nat" where
  "star_count lower t_xlits s_xlits =
     length (filter (\<lambda>t. f_xlit lower t \<in> f_xlit lower ` set s_xlits) t_xlits)"

definition stars_of :: "(ustr \<times> ustr) list \<Rightarrow> ustr \<Rightarrow> ustr" where
  "stars_of s_dict s = (case map_of s_dict s of None \<Rightarrow> [] | Some stars \<Rightarrow> stars)"

text \<open>A store read from a plain list of names: frequency 0 and no spellings.\<close>

definition plain_names :: store where
  "plain_names = [(cps ''Aba'', (0, [])), (cps ''Aia'', (0, []))]"

text \<open>Two small stores: the first two lemmas of the module's documentation, and one lemma.\<close>

definition two_lemmas :: store where
  "two_lemmas = [(cps ''Babil'', (8, [cps ''ba-bil''])), (cps ''Babilu'', (8, [cps ''ba-bi-lu'']))]"

definition one_lemma :: store where
  "one_lemma = [(cps ''Aba'', (2, [cps ''a-ba'']))]"

text \<open>A store of 100 lemmas: \<open>a\<close>, \<open>aa\<close>, \<open>aaa\<close> and so on.\<close>

definition hundred :: store where
  "hundred = map (\<lambda>n. (replicate (Suc n) 97, (1, [[97]]))) [0 ..< 100]"

section \<open>The recurrence is the minimum number of operations\<close>

lemma lev_rec_Nil2 [simp]: "lev_rec xs [] = length xs"
  by (cases xs) auto

lemma lev_rec_sym: "lev_rec a b = lev_rec b a"
  by (induction a b rule: lev_rec.induct) (auto simp: min.commute min.left_commute)

lemma lev_rec_cons_right: "lev_rec a (y # b) \<le> lev_rec a b + 1"
  by (cases a) auto

lemma lev_rec_cons_left: "lev_rec (x # a) b \<le> lev_rec a b + 1"
  by (cases b) auto

lemma lev_rec_uncons_right: "lev_rec a b \<le> lev_rec a (y # b) + 1"
proof (induction a)
  case Nil
  then show ?case by simp
next
  case (Cons x a)
  have "lev_rec (x # a) b \<le> lev_rec a b + 1" by (rule lev_rec_cons_left)
  with Cons show ?case by (auto simp: min_le_iff_disj)
qed

lemma lev_rec_subst_right: "lev_rec a (y # b) \<le> lev_rec a (x # b) + 1"
proof (induction a)
  case Nil
  then show ?case by simp
next
  case (Cons z a)
  then show ?case by (auto simp: min_le_iff_disj)
qed

lemma lev_rec_cong_right:
  assumes "\<And>a. lev_rec a c \<le> lev_rec a b + 1"
  shows "lev_rec a (x # c) \<le> lev_rec a (x # b) + 1"
proof (induction a)
  case Nil
  from assms [of "[]"] show ?case by simp
next
  case (Cons z a)
  from Cons assms [of a] assms [of "z # a"] show ?case
    by (auto simp: min_le_iff_disj)
qed

lemma lev_rec_cong_prefix:
  assumes "\<And>a. lev_rec a c \<le> lev_rec a b + 1"
  shows "lev_rec a (p @ c) \<le> lev_rec a (p @ b) + 1"
proof (induction p arbitrary: a)
  case Nil
  show ?case using assms by simp
next
  case (Cons x p)
  show ?case using lev_rec_cong_right [of "p @ c" "p @ b" a x, OF Cons] by simp
qed

lemma edit1_lipschitz_right: "edit1 b c \<Longrightarrow> lev_rec a c \<le> lev_rec a b + 1"
proof (induction rule: edit1.induct)
  case (insertion p s c)
  show ?case by (rule lev_rec_cong_prefix) (rule lev_rec_cons_right)
next
  case (deletion p c s)
  show ?case by (rule lev_rec_cong_prefix) (rule lev_rec_uncons_right)
next
  case (substitution c c' p s)
  show ?case by (rule lev_rec_cong_prefix) (rule lev_rec_subst_right)
qed

lemma edit1_sym: "edit1 a b \<Longrightarrow> edit1 b a"
  by (induction rule: edit1.induct) (auto intro: edit1.intros)

lemma edit1_lipschitz_left: "edit1 a b \<Longrightarrow> lev_rec a c \<le> lev_rec b c + 1"
  using edit1_lipschitz_right [OF edit1_sym, of a b c] by (simp add: lev_rec_sym)

lemma lev_rec_refl [simp]: "lev_rec a a = 0"
  by (induction a) auto

lemma edits_lower_bound: "edits n a b \<Longrightarrow> lev_rec a b \<le> n"
proof (induction rule: edits.induct)
  case (edits_0 a)
  then show ?case by simp
next
  case (edits_Suc a b n c)
  from edit1_lipschitz_left [OF edits_Suc.hyps(1), of c] edits_Suc.IH show ?case by simp
qed

lemma edit1_Cons: "edit1 a b \<Longrightarrow> edit1 (x # a) (x # b)"
proof (induction rule: edit1.induct)
  case (insertion p s c)
  from edit1.insertion [of "x # p" s c] show ?case by simp
next
  case (deletion p c s)
  from edit1.deletion [of "x # p" c s] show ?case by simp
next
  case (substitution c c' p s)
  from edit1.substitution [of c c' "x # p" s] substitution show ?case by simp
qed

lemma edits_Cons: "edits n a b \<Longrightarrow> edits n (x # a) (x # b)"
  by (induction rule: edits.induct) (auto intro: edits.intros edit1_Cons)

lemma edit1_insert_head: "edit1 s (c # s)"
  using edit1.insertion [of "[]" s c] by simp

lemma edit1_delete_head: "edit1 (c # s) s"
  using edit1.deletion [of "[]" c s] by simp

lemma edit1_subst_head: "c \<noteq> c' \<Longrightarrow> edit1 (c # s) (c' # s)"
  using edit1.substitution [of c c' "[]" s] by simp

lemma edits_insert_all: "edits (length ys) [] ys"
proof (induction ys)
  case Nil
  show ?case by (simp add: edits_0)
next
  case (Cons y ys)
  have "edit1 [] [y]" by (rule edit1_insert_head)
  moreover have "edits (length ys) [y] (y # ys)" using Cons by (rule edits_Cons)
  ultimately show ?case by (simp add: edits_Suc)
qed

lemma edits_delete_all: "edits (length xs) xs []"
proof (induction xs)
  case Nil
  show ?case by (simp add: edits_0)
next
  case (Cons x xs)
  have "edit1 (x # xs) xs" by (rule edit1_delete_head)
  with Cons show ?case by (simp add: edits_Suc)
qed

lemma edits_upper_bound: "edits (lev_rec a b) a b"
proof (induction a b rule: lev_rec.induct)
  case (1 ys)
  show ?case by (simp add: edits_insert_all)
next
  case (2 x xs)
  show ?case using edits_delete_all [of "x # xs"] by simp
next
  case (3 x xs y ys)
  let ?del = "lev_rec xs (y # ys) + 1"
  let ?ins = "lev_rec (x # xs) ys + 1"
  let ?sub = "lev_rec xs ys + of_bool (x \<noteq> y)"
  have del: "edits ?del (x # xs) (y # ys)"
    using edits_Suc [OF edit1_delete_head "3.IH"(1)] by simp
  have ins: "edits ?ins (x # xs) (y # ys)"
    using edits_Suc [OF edit1_insert_head edits_Cons [OF "3.IH"(2)], of y] by simp
  have sub: "edits ?sub (x # xs) (y # ys)"
  proof (cases "x = y")
    case True
    with edits_Cons [OF "3.IH"(3), of x] show ?thesis by simp
  next
    case False
    with edits_Suc [OF edit1_subst_head edits_Cons [OF "3.IH"(3)], of x y] show ?thesis by simp
  qed
  have "lev_rec (x # xs) (y # ys) = ?del \<or> lev_rec (x # xs) (y # ys) = ?ins
      \<or> lev_rec (x # xs) (y # ys) = ?sub"
    by (simp add: min_def)
  with del ins sub show ?case by metis
qed


lemma edit1_rev: "edit1 a b \<Longrightarrow> edit1 (rev a) (rev b)"
proof (induction rule: edit1.induct)
  case (insertion p s c)
  from edit1.insertion [of "rev s" "rev p" c] show ?case by simp
next
  case (deletion p c s)
  from edit1.deletion [of "rev s" c "rev p"] show ?case by simp
next
  case (substitution c c' p s)
  from edit1.substitution [of c c' "rev s" "rev p"] substitution show ?case by simp
qed

lemma edits_rev: "edits n a b \<Longrightarrow> edits n (rev a) (rev b)"
  by (induction rule: edits.induct) (auto intro: edits.intros edit1_rev)

lemma lev_rec_rev_le: "lev_rec (rev a) (rev b) \<le> lev_rec a b"
  by (rule edits_lower_bound [OF edits_rev [OF edits_upper_bound]])

lemma lev_rec_rev: "lev_rec (rev a) (rev b) = lev_rec a b"
  using lev_rec_rev_le [of a b] lev_rec_rev_le [of "rev a" "rev b"] by simp

lemma lev_rec_snoc:
  "lev_rec (a @ [x]) (b @ [y]) =
     min (lev_rec a (b @ [y]) + 1) (min (lev_rec (a @ [x]) b + 1) (lev_rec a b + of_bool (x \<noteq> y)))"
proof -
  have "lev_rec (a @ [x]) (b @ [y]) = lev_rec (x # rev a) (y # rev b)"
    using lev_rec_rev [of "a @ [x]" "b @ [y]"] by simp
  moreover have "lev_rec (rev a) (y # rev b) = lev_rec a (b @ [y])"
    using lev_rec_rev [of a "b @ [y]"] by simp
  moreover have "lev_rec (x # rev a) (rev b) = lev_rec (a @ [x]) b"
    using lev_rec_rev [of "a @ [x]" b] by simp
  ultimately show ?thesis by (simp add: lev_rec_rev)
qed

lemma lev_row_nth: "j \<le> k \<Longrightarrow> lev_row s2 a k ! j = lev_rec a (take j s2)"
  unfolding lev_row_def by (simp add: nth_map_upt del: upt_Suc)

lemma lev_row_Suc: "lev_row s2 a (Suc k) = lev_row s2 a k @ [lev_rec a (take (Suc k) s2)]"
  unfolding lev_row_def by simp

lemma lev_inner_row:
  assumes "s2 = done @ rest"
  shows "lev_inner c1 (lev_row s2 a (length s2)) (lev_row s2 (a @ [c1]) (length done))
           (length done) rest = lev_row s2 (a @ [c1]) (length s2)"
  using assms
proof (induction rest arbitrary: "done")
  case Nil
  then show ?case by simp
next
  case (Cons c2 rest)
  let ?j = "length done"
  have s2: "s2 = (done @ [c2]) @ rest" using Cons.prems by simp
  have lt: "?j < length s2" using Cons.prems by simp
  have t1: "take (Suc ?j) s2 = done @ [c2]" and t0: "take ?j s2 = done"
    using Cons.prems by simp_all
  have p1: "lev_row s2 a (length s2) ! (?j + 1) = lev_rec a (done @ [c2])"
    using lt t1 by (simp add: lev_row_nth)
  have p0: "lev_row s2 a (length s2) ! ?j = lev_rec a done"
    using lt t0 by (simp add: lev_row_nth)
  have c0: "lev_row s2 (a @ [c1]) ?j ! ?j = lev_rec (a @ [c1]) done"
    using t0 by (simp add: lev_row_nth)
  have step: "lev_row s2 (a @ [c1]) ?j @
      [min (lev_rec a (done @ [c2]) + 1)
         (min (lev_rec (a @ [c1]) done + 1) (lev_rec a done + of_bool (c1 \<noteq> c2)))]
      = lev_row s2 (a @ [c1]) (length (done @ [c2]))"
    using t1 by (simp add: lev_row_Suc lev_rec_snoc)
  show ?case
    using Cons.IH [OF s2] step p1 p0 c0 by (simp add: Let_def)
qed

lemma lev_row_first: "lev_row s2 (a @ [c1]) 0 = [length a + 1]"
  by (simp add: lev_row_def)

lemma lev_outer_row:
  "lev_outer s2 (lev_row s2 a (length s2)) (length a) rest = lev_row s2 (a @ rest) (length s2)"
proof (induction rest arbitrary: a)
  case Nil
  show ?case by simp
next
  case (Cons c1 rest)
  have "lev_inner c1 (lev_row s2 a (length s2)) [length a + 1] 0 s2
      = lev_row s2 (a @ [c1]) (length s2)"
    using lev_inner_row [of s2 "[]" s2 c1 a] by (simp add: lev_row_first)
  then show ?case using Cons.IH [of "a @ [c1]"] by simp
qed

lemma lev_row_init: "lev_row s2 [] (length s2) = [0 ..< length s2 + 1]"
proof -
  have "map (\<lambda>j. lev_rec [] (take j s2)) [0 ..< Suc (length s2)] = map (\<lambda>j. j) [0 ..< Suc (length s2)]"
    by (rule map_cong) auto
  then show ?thesis by (simp add: lev_row_def)
qed

lemma lev_row_last: "last (lev_row s2 a (length s2)) = lev_rec a s2"
  by (simp add: lev_row_def)

lemma levenshtein_body:
  "last (lev_outer s2 [0 ..< length s2 + 1] 0 s1) = lev_rec s1 s2"
  using lev_outer_row [of s2 "[]" s1] by (simp add: lev_row_init lev_row_last del: upt_Suc)

lemma levenshtein_no_swap:
  assumes "\<not> length s1 < length s2"
  shows "levenshtein s1 s2 = lev_rec s1 s2"
proof (cases "length s2 = 0")
  case True
  with assms show ?thesis by (subst levenshtein.simps) simp
next
  case False
  with assms have "levenshtein s1 s2 = last (lev_outer s2 [0 ..< length s2 + 1] 0 s1)"
    by (subst levenshtein.simps) simp
  then show ?thesis by (simp only: levenshtein_body)
qed

lemma levenshtein_eq_lev_rec: "levenshtein s1 s2 = lev_rec s1 s2"
proof (cases "length s1 < length s2")
  case True
  then have "levenshtein s1 s2 = levenshtein s2 s1" by (subst levenshtein.simps) simp
  also have "\<dots> = lev_rec s2 s1" using True by (intro levenshtein_no_swap) simp
  finally show ?thesis by (simp add: lev_rec_sym)
next
  case False
  then show ?thesis by (rule levenshtein_no_swap)
qed

section \<open>Distance Scorer: the claims\<close>

lemma hamming_sym: "hamming a b = hamming b a"
proof -
  have "map (\<lambda>(e1, e2). of_bool (e1 \<noteq> e2) :: nat) (zip a b)
      = map (\<lambda>(e1, e2). of_bool (e1 \<noteq> e2)) (zip b a)"
    by (induction a arbitrary: b) (case_tac b; auto)+
  then show ?thesis by (simp add: hamming_def)
qed

text \<open>
  Claim C4. For strings of different lengths, \<open>score_strings\<close> is the Levenshtein distance
  of the lowercased strings: a sequence of that many single-character insertions,
  deletions and substitutions transforms one into the other, and no shorter sequence does;
  when one lowercased string is empty the score is the length of the other.
\<close>

theorem score_strings_is_edit_distance:
  "length a \<noteq> length b \<Longrightarrow>
     edits (score_strings lower a b) (lower a) (lower b)
     \<and> (\<forall>n. edits n (lower a) (lower b) \<longrightarrow> score_strings lower a b \<le> n)
     \<and> (lower a = [] \<longrightarrow> score_strings lower a b = length (lower b))
     \<and> (lower b = [] \<longrightarrow> score_strings lower a b = length (lower a))"
  by (auto simp: score_strings_def levenshtein_eq_lev_rec edits_upper_bound edits_lower_bound)

lemma edits_babil: "edits 1 (lower_latin1 (cps ''Babil'')) (lower_latin1 (cps ''Babilu''))"
proof -
  have "edit1 (cps ''babil'' @ []) (cps ''babil'' @ 117 # [])" by (rule edit1.insertion)
  then have "edits (Suc 0) (cps ''babil'') (cps ''babilu'')"
    by (intro edits_Suc [OF _ edits_0]) simp
  then show ?thesis by (simp add: lower_latin1_def lower_cp_def)
qed

theorem score_strings_is_edit_distance_witness:
  "length (cps ''Babil'') \<noteq> length (cps ''Babilu'')
   \<and> edits 1 (lower_latin1 (cps ''Babil'')) (lower_latin1 (cps ''Babilu''))
   \<and> score_strings lower_latin1 (cps ''Babil'') (cps ''Babilu'') \<le> 1
   \<and> lower_latin1 [] = [] \<and> score_strings lower_latin1 [] (cps ''Ab'') = 2"
proof -
  have ne: "length (cps ''Babil'') \<noteq> length (cps ''Babilu'')" by simp
  have ne2: "length ([] :: ustr) \<noteq> length (cps ''Ab'')" by simp
  have e: "lower_latin1 [] = []" by (simp add: lower_latin1_def)
  from score_strings_is_edit_distance [OF ne, of lower_latin1] edits_babil
  have "score_strings lower_latin1 (cps ''Babil'') (cps ''Babilu'') \<le> 1" by blast
  moreover from score_strings_is_edit_distance [OF ne2, of lower_latin1] e
  have "score_strings lower_latin1 [] (cps ''Ab'') = 2" by (simp add: lower_latin1_def)
  ultimately show ?thesis using ne e edits_babil by blast
qed

text \<open>
  Claim C5. The score is symmetric: \<open>score(a, b) = score(b, a)\<close> for all strings, whatever
  \<open>str.lower\<close> does.
\<close>

theorem score_strings_symmetric: "score_strings lower a b = score_strings lower b a"
proof (cases "length a = length b")
  case True
  then show ?thesis by (simp add: score_strings_def hamming_sym [of "lower a"])
next
  case False
  then have "length b \<noteq> length a" by simp
  with False show ?thesis
    by (simp add: score_strings_def levenshtein_eq_lev_rec lev_rec_sym [of "lower a"])
qed

section \<open>Spelling Normalizer: the claims\<close>

lemma take_eq_subset: "take n xs = m \<Longrightarrow> set m \<subseteq> set xs"
  using set_take_subset [of n xs] by simp

lemma sub_determinatives_no_marker:
  "85 \<notin> set y \<Longrightarrow> 75 \<notin> set y \<Longrightarrow> sub_determinatives y = filter (\<lambda>c. \<not> is_subscript c) y"
proof (induction y)
  case Nil
  show ?case by simp
next
  case (Cons c cs)
  have uru: "take 5 (c # cs) \<noteq> cps ''{URU}''"
  proof
    assume "take 5 (c # cs) = cps ''{URU}''"
    from take_eq_subset [OF this] have "85 \<in> set (c # cs)" by simp
    with Cons.prems show False by simp
  qed
  have kur: "take 5 (c # cs) \<noteq> cps ''{KUR}''"
  proof
    assume "take 5 (c # cs) = cps ''{KUR}''"
    from take_eq_subset [OF this] have "85 \<in> set (c # cs)" by simp
    with Cons.prems show False by simp
  qed
  have ki: "take 4 (c # cs) \<noteq> cps ''{KI}''"
  proof
    assume "take 4 (c # cs) = cps ''{KI}''"
    from take_eq_subset [OF this] have "75 \<in> set (c # cs)" by simp
    with Cons.prems show False by simp
  qed
  have step: "sub_determinatives (c # cs) =
      (if is_subscript c then sub_determinatives cs else c # sub_determinatives cs)"
    using uru kur ki by (simp only: sub_determinatives.simps if_False)
  from Cons have "sub_determinatives cs = filter (\<lambda>c. \<not> is_subscript c) cs" by simp
  with step show ?case by simp
qed

lemma f_xlit_normal_form:
  assumes "lowercases lower F"
  shows "f_xlit lower x = normal_form (lower x)"
proof -
  have F: "set (lower x) \<subseteq> F" and U: "85 \<notin> F" and K: "75 \<notin> F"
    using assms by (auto simp: lowercases_def)
  then have "85 \<notin> set (lower x)" "75 \<notin> set (lower x)" by auto
  then have s: "sub_determinatives (lower x) = filter (\<lambda>c. \<not> is_subscript c) (lower x)"
    by (rule sub_determinatives_no_marker)
  have "set (filter (\<lambda>c. \<not> is_subscript c) (lower x)) \<subseteq> F" using F by auto
  then have "lower (filter (\<lambda>c. \<not> is_subscript c) (lower x)) = filter (\<lambda>c. \<not> is_subscript c) (lower x)"
    using assms by (simp add: lowercases_def)
  with s show ?thesis by (simp add: f_xlit_def normal_form_def Let_def)
qed

lemma normal_form_set:
  assumes "set y \<subseteq> F" "45 \<in> F" "103 \<in> F"
  shows "set (normal_form y) \<subseteq> F"
  using assms by (auto simp: normal_form_def)

lemma normal_form_chars:
  assumes "c \<in> set (normal_form y)"
  shows "\<not> is_subscript c \<and> c \<noteq> 46 \<and> c \<noteq> 40 \<and> c \<noteq> 41 \<and> c \<noteq> 331"
proof -
  from assms obtain b where b: "b \<in> set y" "\<not> is_subscript b"
      and c: "c = (if (if b = 46 then 45 else b) = 331 then 103 else (if b = 46 then 45 else b))"
      and p: "(if b = 46 then 45 else b) \<noteq> 40" "(if b = 46 then 45 else b) \<noteq> 41"
    unfolding normal_form_def by auto
  show ?thesis
  proof (cases "b = 46")
    case True
    with c show ?thesis by (simp add: is_subscript_def)
  next
    case False
    show ?thesis
    proof (cases "b = 331")
      case True
      with c show ?thesis by (simp add: is_subscript_def)
    next
      case n: False
      with False c p b show ?thesis by simp
    qed
  qed
qed

lemma normal_form_fixed:
  assumes "\<forall>c \<in> set z. \<not> is_subscript c \<and> c \<noteq> 46 \<and> c \<noteq> 40 \<and> c \<noteq> 41 \<and> c \<noteq> 331"
  shows "normal_form z = z"
proof -
  have 1: "filter (\<lambda>c. \<not> is_subscript c) z = z" using assms by (simp add: filter_id_conv)
  have 2: "map (\<lambda>c. if c = 46 then 45 else c) z = z" using assms by (simp add: map_idI)
  have 3: "filter (\<lambda>c. c \<noteq> 40 \<and> c \<noteq> 41) z = z" using assms by (simp add: filter_id_conv)
  have 4: "map (\<lambda>c. if c = 331 then 103 else c) z = z" using assms by (simp add: map_idI)
  show ?thesis unfolding normal_form_def by (simp only: 1 2 3 4)
qed

lemma normal_form_idem: "normal_form (normal_form y) = normal_form y"
  by (rule normal_form_fixed) (blast dest: normal_form_chars)

lemma lowercases_latin1: "lowercases lower_latin1 {c. lower_cp c = c}"
proof -
  have 1: "set (lower_latin1 x) \<subseteq> {c. lower_cp c = c}" for x
    by (auto simp: lower_latin1_def lower_cp_def)
  have 2: "set z \<subseteq> {c. lower_cp c = c} \<Longrightarrow> lower_latin1 z = z" for z
    unfolding lower_latin1_def by (induction z) auto
  show ?thesis unfolding lowercases_def using 1 2 by (simp add: lower_cp_def)
qed

text \<open>
  Claim C3. \<open>f_xlit\<close> lowercases its argument before it looks for the markers
  \<open>{URU}\<close>, \<open>{KUR}\<close> and \<open>{KI}\<close>, which are written in capitals: a marker is never
  deleted. The spelling \<open>{URU}as-du-di\<close> normalizes to \<open>{uru}as-du-di\<close>, not to the
  normal form \<open>as-du-di\<close> of the spelling without the marker.
\<close>

theorem f_xlit_keeps_marker:
  "f_xlit lower_latin1 (cps ''{URU}as-du-di'') = cps ''{uru}as-du-di''
   \<and> f_xlit lower_latin1 (cps ''as-du-di'') = cps ''as-du-di''
   \<and> f_xlit lower_latin1 (cps ''{URU}as-du-di'') \<noteq> f_xlit lower_latin1 (cps ''as-du-di'')"
  by (simp add: f_xlit_def lower_latin1_def lower_cp_def is_subscript_def Let_def)

text \<open>
  Claim C6, as amended. \<open>f_xlit\<close> is idempotent, and \<open>f_xlit(x.upper())\<close> is
  \<open>f_xlit(x)\<close> for every \<open>x\<close> whose uppercased form lowercases to \<open>x.lower()\<close>.
\<close>

theorem f_xlit_idempotent_case:
  "lowercases lower F \<Longrightarrow>
     f_xlit lower (f_xlit lower x) = f_xlit lower x
     \<and> (lower (upper x) = lower x \<longrightarrow> f_xlit lower (upper x) = f_xlit lower x)"
proof -
  assume L: "lowercases lower F"
  have "set (normal_form (lower x)) \<subseteq> F"
    using L by (intro normal_form_set) (auto simp: lowercases_def)
  then have "lower (normal_form (lower x)) = normal_form (lower x)"
    using L by (simp add: lowercases_def)
  then show ?thesis
    by (simp add: f_xlit_normal_form [OF L] normal_form_idem)
qed

theorem f_xlit_idempotent_case_witness:
  "f_xlit lower_latin1 (cps ''{URU}A.b(C)'') = cps ''{uru}a-bc''
   \<and> f_xlit lower_latin1 (cps ''{uru}a-bc'') = cps ''{uru}a-bc''
   \<and> lower_latin1 (upper_latin1 (cps ''{URU}A.b(C)'')) = lower_latin1 (cps ''{URU}A.b(C)'')
   \<and> f_xlit lower_latin1 (upper_latin1 (cps ''{URU}A.b(C)'')) = cps ''{uru}a-bc''"
proof -
  have v: "f_xlit lower_latin1 (cps ''{URU}A.b(C)'') = cps ''{uru}a-bc''"
    by (simp add: f_xlit_def lower_latin1_def lower_cp_def is_subscript_def Let_def)
  have u: "lower_latin1 (upper_latin1 (cps ''{URU}A.b(C)'')) = lower_latin1 (cps ''{URU}A.b(C)'')"
    by (simp add: lower_latin1_def lower_cp_def upper_latin1_def upper_cp_def)
  from f_xlit_idempotent_case [OF lowercases_latin1, of "cps ''{URU}A.b(C)''" upper_latin1] u v
  show ?thesis by simp
qed

text \<open>
  The claim as stated fails at U+00DF, whose uppercase is \<open>SS\<close>.
\<close>

theorem f_xlit_upper_counterexample:
  "f_xlit lower_latin1 (upper_latin1 [223]) \<noteq> f_xlit lower_latin1 [223]"
  by (simp add: f_xlit_def lower_latin1_def lower_cp_def upper_latin1_def upper_cp_def is_subscript_def Let_def)

section \<open>Lemma Store: the claim\<close>

lemma split_from_not_Nil: "split_from sep cur s \<noteq> []"
  by (induction sep cur s rule: split_from.induct) auto

lemma py_join_Cons: "ys \<noteq> [] \<Longrightarrow> py_join sep (x # ys) = x @ sep @ py_join sep ys"
  by (cases ys) auto

lemma py_join_split_from: "py_join sep (split_from sep cur s) = cur @ s"
proof (induction sep cur s rule: split_from.induct)
  case (1 sep cur)
  show ?case by simp
next
  case (2 sep cur c cs)
  show ?case
  proof (cases "sep = []")
    case True
    with 2 show ?thesis by simp
  next
    case False
    show ?thesis
    proof (cases "take (length sep) (c # cs) = sep")
      case True
      have "py_join sep (split_from sep cur (c # cs))
          = cur @ sep @ py_join sep (split_from sep [] (drop (length sep) (c # cs)))"
        using False True by (simp add: py_join_Cons split_from_not_Nil)
      also have "\<dots> = cur @ take (length sep) (c # cs) @ drop (length sep) (c # cs)"
        using "2.IH"(2) [OF False True] True by simp
      finally show ?thesis by (simp only: append_take_drop_id)
    next
      case no: False
      with False "2.IH"(3) show ?thesis by simp
    qed
  qed
qed

lemma py_join_py_split: "py_join sep (py_split s sep) = s"
  by (simp add: py_split_def py_join_split_from)

text \<open>A store that \<open>read_file\<close> returns has distinct keys.\<close>

lemma keys_setitem: "set (map fst (setitem d k v)) = insert k (set (map fst d))"
  by (induction d k v rule: setitem.induct) auto

lemma distinct_setitem: "distinct (map fst d) \<Longrightarrow> distinct (map fst (setitem d k v))"
  by (induction d k v rule: setitem.induct) (auto simp: keys_setitem [simplified])

lemma read_freq_lines_distinct:
  "distinct (map fst ddict) \<Longrightarrow> read_freq_lines decimal ddict ls = Inr d \<Longrightarrow> distinct (map fst d)"
proof (induction ls arbitrary: ddict)
  case Nil
  then show ?case by simp
next
  case (Cons l ls)
  from Cons.prems(2) obtain k f x where "read_line decimal l = Inr (k, f, x)"
    and "read_freq_lines decimal (setitem ddict k (f, x)) ls = Inr d"
    by (auto split: sum.splits)
  with Cons.IH [OF distinct_setitem [OF Cons.prems(1)]] show ?case by blast
qed

lemma read_plain_lines_distinct:
  "distinct (map fst ddict) \<Longrightarrow> distinct (map fst (read_plain_lines ddict ls))"
  by (induction ls arbitrary: ddict) (auto simp: distinct_setitem)

lemma read_file_distinct:
  "fst (read_file decimal fname text format st) = Inr d \<Longrightarrow> distinct (map fst d)"
  using read_freq_lines_distinct [of "[]" decimal "py_splitlines text" d]
    read_plain_lines_distinct [of "[]" "py_splitlines text"]
  by (auto simp: read_file_def Let_def split: if_splits)

text \<open>
  The line \<open>11 Asdudu\<close> is stored with the frequency 1: the lazy group of the pattern
  takes the first digit only.
\<close>

lemma read_line_asdudu:
  "read_line decimal_ascii asdudu =
     Inr (cps ''Asdudu'', 1, [cps ''{URU}as-du-di'', cps ''{KUR}as-du-di''])"
  by (simp add: asdudu_def read_line_def py_strip_def is_space_def sub_leading_digit_def
      decimal_ascii_def py_int_def int_space_def strip_digits_spaces_def py_split_def Let_def)

text \<open>
  Claim C2, as amended. When \<open>read_file\<close> stores a record for a line, the stripped line
  has at least two fields between tabs; the key is the first field without ASCII digits
  and spaces, and the spellings are the second field without its first and last
  character, split at comma-space (joined by comma-space they give that text back).
\<close>

theorem read_line_record:
  "read_line decimal l = Inr (lemma, freq, xlit) \<Longrightarrow>
     (\<exists>f0 f1 fs. py_split (py_strip l) [9] = f0 # f1 # fs
        \<and> py_join [9] (f0 # f1 # fs) = py_strip l
        \<and> lemma = strip_digits_spaces f0
        \<and> xlit = py_split (butlast (tl f1)) (cps '', '')
        \<and> py_join (cps '', '') xlit = butlast (tl f1))"
proof -
  assume r: "read_line decimal l = Inr (lemma, freq, xlit)"
  then obtain f0 f1 fs where s: "py_split (py_strip l) [9] = f0 # f1 # fs"
    by (auto simp: read_line_def Let_def split: sum.splits list.splits)
  with r have "lemma = strip_digits_spaces f0" "xlit = py_split (butlast (tl f1)) (cps '', '')"
    by (auto simp: read_line_def Let_def split: sum.splits)
  moreover have "py_join [9] (f0 # f1 # fs) = py_strip l"
    using py_join_py_split [of "[9]" "py_strip l"] s by simp
  ultimately show ?thesis using s by (simp add: py_join_py_split)
qed

theorem read_line_record_witness:
  "read_line decimal_ascii asdudu = Inr (cps ''Asdudu'', 1, [cps ''{URU}as-du-di'', cps ''{KUR}as-du-di''])
   \<and> (\<exists>f0 f1 fs. py_split (py_strip asdudu) [9] = f0 # f1 # fs
        \<and> cps ''Asdudu'' = strip_digits_spaces f0
        \<and> py_join (cps '', '') [cps ''{URU}as-du-di'', cps ''{KUR}as-du-di''] = butlast (tl f1))"
  using read_line_record [OF read_line_asdudu] read_line_asdudu by blast

text \<open>
  The claim as stated fails on a line of three fields: the spellings come from the
  second field, not the third.
\<close>

theorem read_line_third_field_counterexample:
  "read_line decimal_ascii (cps ''1 Ab'' @ [9] @ cps ''zz'' @ [9] @ cps ''[x, y]'') = Inr (cps ''Ab'', 1, [[]])
   \<and> spec_record decimal_ascii (cps ''1 Ab'' @ [9] @ cps ''zz'' @ [9] @ cps ''[x, y]'')
       = Some (cps ''Ab'', 1, [cps ''x'', cps ''y''])"
  by (simp add: read_line_def py_strip_def is_space_def sub_leading_digit_def spec_record_def
      decimal_ascii_def py_int_def int_space_def strip_digits_spaces_def py_split_def Let_def)

section \<open>Candidate Clusterer: the edge rule\<close>

lemma map_of_setitem: "map_of (setitem d k v) k' = (if k' = k then Some v else map_of d k')"
  by (induction d k v rule: setitem.induct) auto

lemma candidates_setitem:
  "candidates (setitem d k v) k' = (if k' = k then v else candidates d k')"
  by (simp add: candidates_def map_of_setitem)

lemma length_gate:
  "(sort [a, b] ! 1 - sort [a, b] ! 0 > 3) \<longleftrightarrow> \<not> \<bar>int a - int b\<bar> \<le> (3::int)" for a b :: nat
  by (cases "a \<le> b") auto

lemma compare_inner_step:
  "candidates
     (let x = sort [length w1, length w2] in
        if x ! 1 - x ! 0 > 3 then dict
        else
          (let score = score_strings lower w1 w2;
               min_val = (if length w1 \<ge> 8 then 2 else 1)
           in if score \<le> min_val
              then (case map_of dict w1 of
                      None \<Rightarrow> setitem dict w1 [w2]
                    | Some cands \<Rightarrow> setitem dict w1 (cands @ [w2]))
              else dict)) w
   = candidates dict w @ (if w = w1 \<and> close_pair lower w1 w2 then [w2] else [])"
proof (cases "close_pair lower w1 w2")
  case True
  then have g: "\<not> sort [length w1, length w2] ! 1 - sort [length w1, length w2] ! 0 > 3"
    and s: "score_strings lower w1 w2 \<le> (if length w1 \<ge> 8 then 2 else 1)"
    unfolding length_gate by (simp_all add: close_pair_def)
  show ?thesis
    using g s True
    by (cases "map_of dict w1") (simp_all only: Let_def if_False if_True option.case candidates_setitem, simp_all add: candidates_def)
next
  case False
  then have "sort [length w1, length w2] ! 1 - sort [length w1, length w2] ! 0 > 3
     \<or> \<not> score_strings lower w1 w2 \<le> (if length w1 \<ge> 8 then 2 else 1)"
    unfolding length_gate by (auto simp: close_pair_def)
  then show ?thesis using False by (auto simp only: Let_def if_False if_True append_Nil2 split: if_splits)
qed

lemma compare_inner_candidates:
  "candidates (compare_inner lower w1 dict ws) w
     = candidates dict w @ (if w = w1 then filter (close_pair lower w1) ws else [])"
proof (induction ws arbitrary: dict)
  case Nil
  show ?case by simp
next
  case (Cons w2 ws)
  show ?case
    by (simp only: compare_inner.simps Cons.IH compare_inner_step) simp
qed


lemma py_index_Some: "x \<in> set xs \<Longrightarrow> \<exists>i. py_index xs x = Some i"
  by (induction xs) auto

lemma py_index_nth: "distinct xs \<Longrightarrow> i < length xs \<Longrightarrow> py_index xs (xs ! i) = Some i"
proof (induction xs arbitrary: i)
  case Nil
  then show ?case by simp
next
  case (Cons x xs)
  show ?case
  proof (cases i)
    case 0
    then show ?thesis by simp
  next
    case (Suc k)
    with Cons.prems have "xs ! k \<in> set xs" "x \<notin> set xs" by auto
    then have "x \<noteq> xs ! k" by auto
    with Cons Suc show ?thesis by simp
  qed
qed

lemma dictionary_py_print [simp]: "dictionary (py_print l st) = dictionary st"
  by (simp add: py_print_def)

lemma data_py_print [simp]: "data (py_print l st) = data st"
  by (simp add: py_print_def)

lemma compare_outer_returns:
  "set ws \<subseteq> set keys \<Longrightarrow> fst (compare_outer lower keys step ws st) = None"
proof (induction ws arbitrary: st)
  case Nil
  show ?case by simp
next
  case (Cons w1 ws)
  then obtain index where "py_index keys w1 = Some index"
    using py_index_Some [of w1 keys] by auto
  with Cons show ?case by (simp add: Let_def)
qed

lemma compare_outer_candidates:
  assumes "distinct ws" "set ws \<subseteq> set keys"
  shows "candidates (dictionary (snd (compare_outer lower keys step ws st))) w
     = candidates (dictionary st) w
       @ (if w \<in> set ws
          then filter (close_pair lower w) (drop (the (py_index keys w) + 1) keys) else [])"
  using assms
proof (induction ws arbitrary: st)
  case Nil
  show ?case by simp
next
  case (Cons w1 ws)
  then obtain index where i: "py_index keys w1 = Some index"
    using py_index_Some [of w1 keys] by auto
  from Cons.prems have d: "distinct ws" "set ws \<subseteq> set keys" "w1 \<notin> set ws" by auto
  show ?case
    using i d(3) by (auto simp: Let_def Cons.IH [OF d(1,2)] compare_inner_candidates)
qed

lemma compare_returns: "fst (compare lower dict_data st) = None \<longleftrightarrow> 100 \<le> length dict_data"
proof (cases "length dict_data div 100 = 0")
  case True
  then have "length dict_data < 100" by simp
  with True show ?thesis by (simp add: compare_def Let_def)
next
  case False
  then have "100 \<le> length dict_data" by (simp add: div_eq_0_iff)
  with False show ?thesis by (simp add: compare_def Let_def compare_outer_returns)
qed

lemma compare_candidates:
  assumes "distinct (map fst dict_data)" "100 \<le> length dict_data" "w \<in> fst ` set dict_data"
  shows "candidates (dictionary (snd (compare lower dict_data st))) w
     = candidates (dictionary st) w
       @ filter (close_pair lower w) (drop (the (py_index (map fst dict_data) w) + 1) (map fst dict_data))"
proof -
  from assms(2) have "length dict_data div 100 \<noteq> 0" by (simp add: div_eq_0_iff)
  then show ?thesis
    using assms(1,3) by (simp add: compare_def Let_def compare_outer_candidates)
qed

lemma compare_edge_rule:
  assumes "distinct (map fst dict_data)" "100 \<le> length dict_data" "dictionary st = []"
    and "i < j" "j < length dict_data"
  shows "fst (compare lower dict_data st) = None
    \<and> (map fst dict_data ! j \<in> set (candidates (dictionary (snd (compare lower dict_data st))) (map fst dict_data ! i))
        \<longleftrightarrow> close_pair lower (map fst dict_data ! i) (map fst dict_data ! j))"
proof -
  let ?keys = "map fst dict_data"
  have i: "i < length ?keys" and j: "j < length ?keys" using assms by simp_all
  have idx: "py_index ?keys (?keys ! i) = Some i" using assms(1) i by (rule py_index_nth)
  have mem: "?keys ! i \<in> fst ` set dict_data" using i nth_mem [of i ?keys] by (simp del: nth_mem nth_map)
  have c: "candidates (dictionary (snd (compare lower dict_data st))) (?keys ! i)
      = filter (close_pair lower (?keys ! i)) (drop (i + 1) ?keys)"
    using compare_candidates [OF assms(1,2) mem, of lower st] idx assms(3)
    by (simp add: candidates_def del: nth_map)
  have "drop (i + 1) ?keys ! (j - (i + 1)) = ?keys ! j" using assms(4) j by (simp del: nth_map)
  moreover have "j - (i + 1) < length (drop (i + 1) ?keys)" using assms(4) j by simp
  ultimately have "?keys ! j \<in> set (drop (i + 1) ?keys)" by (metis nth_mem)
  with c show ?thesis using assms(2) by (simp add: compare_returns del: nth_map)
qed

section \<open>Candidate Clusterer and Reporter: the claims\<close>

lemma count_comparisons_small:
  "count_comparisons 0 = 1" "count_comparisons (Suc 0) = 1" "count_comparisons (Suc (Suc 0)) = 3"
  by (simp_all add: count_comparisons_def count_loop.simps)

lemma fmt_int_small: "fmt_int 0 = [48]" "fmt_int 1 = [49]" "fmt_int 2 = [50]" "fmt_int 3 = [51]"
  by (simp_all add: fmt_int_def digits.simps)

lemma close_pair_Babil: "close_pair lower_latin1 (cps ''Babil'') (cps ''Babilu'')"
proof -
  have "score_strings lower_latin1 (cps ''Babil'') (cps ''Babilu'')
      = lev_rec (lower_latin1 (cps ''Babil'')) (lower_latin1 (cps ''Babilu''))"
    by (simp add: score_strings_def levenshtein_eq_lev_rec)
  also have "\<dots> \<le> 1" by (rule edits_lower_bound [OF edits_babil])
  finally show ?thesis by (simp add: close_pair_def)
qed

lemma print_results_empty: "dictionary st = [] \<Longrightarrow> print_results lower show_freqs st = (None, st)"
  by (simp add: print_results_def)

lemma compare_outer_data: "data (snd (compare_outer lower keys step ws st)) = data st"
  by (induction ws arbitrary: st) (auto simp: Let_def split: option.splits)

lemma compare_data: "data (snd (compare lower dict_data st)) = data st"
  by (simp add: compare_def Let_def compare_outer_data)

lemma print_results_loop_data:
  "data (snd (print_results_loop lower show_freqs entries st)) = data st"
proof (induction entries arbitrary: st)
  case Nil
  show ?case by simp
next
  case (Cons e entries)
  obtain k cands where e: "e = (k, cands)" by (cases e)
  show ?case unfolding e
    by (simp add: Let_def Cons.IH split: sum.splits)
qed

text \<open>The edge rule at work on the store of 100 lemmas: \<open>aa\<close> is a candidate of \<open>a\<close>.\<close>

lemma hundred_keys: "map fst hundred = map (\<lambda>n. replicate (Suc n) 97) [0 ..< 100]"
  by (simp add: hundred_def comp_def del: upt_Suc replicate_Suc)

lemma hundred_distinct: "distinct (map fst hundred)"
proof -
  have "inj_on (\<lambda>n. replicate (Suc n) (97::nat)) (set [0 ..< 100])"
    by (rule inj_onI) (metis length_replicate nat.inject)
  then show ?thesis unfolding hundred_keys by (simp add: distinct_map del: upt_Suc replicate_Suc)
qed

lemma close_pair_a_aa: "close_pair lower_latin1 [97] [97, 97]"
proof -
  have "edit1 ([97] @ []) ([97] @ 97 # [] :: ustr)" by (rule edit1.insertion)
  then have "edits (Suc 0) [97] ([97, 97] :: ustr)"
    by (intro edits_Suc [OF _ edits_0]) simp
  then have "lev_rec [97] ([97, 97] :: ustr) \<le> 1" using edits_lower_bound by fastforce
  then show ?thesis
    by (simp add: close_pair_def score_strings_def levenshtein_eq_lev_rec lower_latin1_def lower_cp_def)
qed

lemma compare_edge_rule_hundred:
  "fst (compare lower_latin1 hundred (initial\<lparr>data := hundred\<rparr>)) = None
   \<and> [97, 97] \<in> set (candidates (dictionary (snd (compare lower_latin1 hundred (initial\<lparr>data := hundred\<rparr>)))) [97])"
proof -
  have k0: "map fst hundred ! 0 = [97]" and k1: "map fst hundred ! 1 = [97, 97]"
    unfolding hundred_keys by (simp_all del: upt_Suc)
  have "dictionary (initial\<lparr>data := hundred\<rparr>) = []" by (simp add: initial_def)
  from compare_edge_rule [OF hundred_distinct _ this, of 0 1 lower_latin1]
  show ?thesis unfolding k0 k1 using close_pair_a_aa by (simp add: hundred_def)
qed

text \<open>
  Claim C1. On a store of at least 100 lemmas the edge rule holds (\<open>compare_edge_rule\<close>
  and \<open>compare_edge_rule_hundred\<close> above). On the store of \<open>Babil\<close> and \<open>Babilu\<close>, a pair the rule accepts, \<open>compare\<close>
  raises \<open>ValueError\<close> at the progress range, before the first comparison: the edge
  mapping stays empty and \<open>Babilu\<close> is no candidate of \<open>Babil\<close>.
\<close>

theorem compare_two_lemmas_raises:
  "close_pair lower_latin1 (cps ''Babil'') (cps ''Babilu'')
   \<and> compare lower_latin1 two_lemmas (initial\<lparr>data := two_lemmas\<rparr>)
       = (Some ValueError,
          \<lparr>data = two_lemmas, dictionary = [], stdout = [cps ''2 entries, 3 comparisons'']\<rparr>)
   \<and> candidates (dictionary (snd (compare lower_latin1 two_lemmas (initial\<lparr>data := two_lemmas\<rparr>))))
        (cps ''Babil'') = []"
proof -
  have c: "compare lower_latin1 two_lemmas (initial\<lparr>data := two_lemmas\<rparr>)
       = (Some ValueError,
          \<lparr>data = two_lemmas, dictionary = [], stdout = [cps ''2 entries, 3 comparisons'']\<rparr>)"
    by (simp add: compare_def two_lemmas_def initial_def py_print_def Let_def
        count_comparisons_small fmt_int_small)
  show ?thesis unfolding c using close_pair_Babil by (simp add: candidates_def)
qed

text \<open>
  Claim C8. On the empty input the script does not complete: \<open>read_file\<close> returns the
  empty store and \<open>compare\<close> raises \<open>ValueError\<close>, since the step of the progress range
  is zero. (\<open>print_results\<close> on the empty edge mapping prints nothing, but is not
  reached.)
\<close>

theorem script_empty_input_raises:
  "script decimal lower [] =
     (Some ValueError,
      \<lparr>data = [], dictionary = [],
       stdout = [cps ''reading file places_with_translit.txt...'', cps ''0 entries, 1 comparisons'']\<rparr>)
   \<and> compare lower [] initial
       = (Some ValueError, \<lparr>data = [], dictionary = [], stdout = [cps ''0 entries, 1 comparisons'']\<rparr>)
   \<and> print_results lower True initial = (None, initial)"
proof -
  have r: "read_file decimal (cps ''places_with_translit.txt'') [] (cps ''freq'') initial
      = (Inr [], \<lparr>data = [], dictionary = [], stdout = [cps ''reading file places_with_translit.txt...'']\<rparr>)"
    by (simp add: read_file_def py_splitlines_def py_print_def initial_def Let_def)
  have c: "compare lower [] st = (Some ValueError, py_print (cps ''0 entries, 1 comparisons'') st)" for st
    by (simp add: compare_def Let_def count_comparisons_small fmt_int_small)
  have p: "print_results lower True initial = (None, initial)"
    by (rule print_results_empty) (simp add: initial_def)
  have s: "script decimal lower [] =
     (Some ValueError,
      \<lparr>data = [], dictionary = [],
       stdout = [cps ''reading file places_with_translit.txt...'', cps ''0 entries, 1 comparisons'']\<rparr>)"
    unfolding script_def r by (simp add: c py_print_def)
  have c': "compare lower [] initial
       = (Some ValueError, \<lparr>data = [], dictionary = [], stdout = [cps ''0 entries, 1 comparisons'']\<rparr>)"
    unfolding c by (simp add: py_print_def initial_def)
  from s c' p show ?thesis by (simp only: simp_thms)
qed

text \<open>
  Claim C9. Neither the clustering pass nor the reporter with its overlap annotation
  changes the lemma store: after \<open>compare\<close> and after \<open>print_results\<close>, whether they
  return or raise, the global \<open>data\<close> is what it was.
\<close>

theorem store_never_mutated:
  "data (snd (compare lower dict_data st)) = data st
   \<and> data (snd (print_results lower show_freqs st)) = data st"
  by (simp add: compare_data print_results_def print_results_loop_data)

text \<open>
  Claim C10. On a non-empty store of fewer than 100 lemmas \<open>compare\<close> raises
  \<open>ValueError\<close> after its first line of output and before any comparison (the state it
  leaves differs from the one it found by that line only); \<open>compare\<close> returns normally
  exactly on the stores of at least 100 lemmas.
\<close>

theorem compare_below_100_raises:
  "(0 < length dict_data \<and> length dict_data < 100 \<longrightarrow>
      compare lower dict_data st
        = (Some ValueError,
           py_print (fmt_int (int (length dict_data)) @ cps '' entries, ''
             @ fmt_int (int (count_comparisons (length dict_data))) @ cps '' comparisons'') st))
   \<and> (fst (compare lower dict_data st) = None \<longleftrightarrow> 100 \<le> length dict_data)"
  by (simp add: compare_returns) (simp add: compare_def Let_def)

theorem compare_below_100_raises_witness:
  "0 < length one_lemma \<and> length one_lemma < 100
   \<and> compare lower_latin1 one_lemma (initial\<lparr>data := one_lemma\<rparr>)
       = (Some ValueError,
          \<lparr>data = one_lemma, dictionary = [], stdout = [cps ''1 entries, 1 comparisons'']\<rparr>)
   \<and> fst (compare lower_latin1 one_lemma (initial\<lparr>data := one_lemma\<rparr>)) \<noteq> None"
proof -
  have l: "0 < length one_lemma \<and> length one_lemma < 100" by (simp add: one_lemma_def)
  have "length one_lemma = Suc 0" by (simp add: one_lemma_def)
  with compare_below_100_raises [of one_lemma lower_latin1 "initial\<lparr>data := one_lemma\<rparr>"] l
  show ?thesis
    by (simp add: initial_def py_print_def count_comparisons_small fmt_int_small)
qed

section \<open>Overlap Annotator: the claim\<close>

lemma xlits_inner_lookup:
  "map_of (xlits_inner lower s s_xlits s_dict ts) s' =
     (if s' = s \<and> ts \<noteq> []
      then Some (stars_of s_dict s @ replicate (star_count lower ts s_xlits) 42)
      else map_of s_dict s')"
proof (induction ts arbitrary: s_dict)
  case Nil
  show ?case by simp
next
  case (Cons t ts)
  let ?m = "f_xlit lower t \<in> f_xlit lower ` set s_xlits"
  let ?d = "if f_xlit lower t \<in> set (map (f_xlit lower) s_xlits)
        then (case map_of s_dict s of
                None \<Rightarrow> setitem s_dict s (cps ''*'')
              | Some stars \<Rightarrow> setitem s_dict s (stars @ cps ''*''))
        else (case map_of s_dict s of
                None \<Rightarrow> setitem s_dict s []
              | Some stars \<Rightarrow> s_dict)"
  have other: "s' \<noteq> s \<Longrightarrow> map_of ?d s' = map_of s_dict s'"
    by (auto simp: map_of_setitem split: option.splits)
  have self: "map_of ?d s = Some (stars_of s_dict s @ (if ?m then [42] else []))"
    by (auto simp: map_of_setitem stars_of_def split: option.splits)
  then have st: "stars_of ?d s = stars_of s_dict s @ (if ?m then [42] else [])"
    by (simp add: stars_of_def)
  have cnt: "star_count lower (t # ts) s_xlits = (if ?m then 1 else 0) + star_count lower ts s_xlits"
    by (simp add: star_count_def)
  have "map_of (xlits_inner lower s s_xlits s_dict (t # ts)) s'
      = map_of (xlits_inner lower s s_xlits ?d ts) s'"
    by (simp only: xlits_inner.simps)
  also have "\<dots> = (if s' = s \<and> ts \<noteq> []
      then Some (stars_of ?d s @ replicate (star_count lower ts s_xlits) 42)
      else map_of ?d s')"
    by (rule Cons.IH)
  also have "\<dots> = (if s' = s
      then Some (stars_of s_dict s @ replicate (star_count lower (t # ts) s_xlits) 42)
      else map_of s_dict s')"
  proof (cases "s' = s")
    case True
    show ?thesis
    proof (cases "ts = []")
      case e: True
      with True self show ?thesis by (simp add: cnt star_count_def)
    next
      case e: False
      with True st show ?thesis by (simp add: cnt)
    qed
  next
    case False
    with other show ?thesis by simp
  qed
  finally show ?case by simp
qed

lemma stars_of_xlits_inner:
  "ts \<noteq> [] \<Longrightarrow> stars_of (xlits_inner lower s s_xlits s_dict ts) s'
     = stars_of s_dict s' @ (if s' = s then replicate (star_count lower ts s_xlits) 42 else [])"
  by (simp add: stars_of_def [of "xlits_inner lower s s_xlits s_dict ts"] xlits_inner_lookup)
     (simp add: stars_of_def)

lemma xlits_outer_lookup:
  assumes "t_xlits \<noteq> []" "\<forall>s \<in> set ss. map_of (data st) s \<noteq> None"
  shows "\<exists>d. xlits_outer lower st t_xlits s_dict ss = Inr d
     \<and> (\<forall>s. map_of d s =
          (if s \<in> set ss
           then Some (stars_of s_dict s
                  @ replicate (count_list ss s * star_count lower t_xlits (snd (the (map_of (data st) s)))) 42)
           else map_of s_dict s))"
  using assms(2)
proof (induction ss arbitrary: s_dict)
  case Nil
  show ?case by simp
next
  case (Cons s0 ss)
  from Cons.prems obtain entry where e: "map_of (data st) s0 = Some entry" by auto
  let ?d1 = "xlits_inner lower s0 (snd entry) s_dict t_xlits"
  from Cons.prems have "\<forall>s \<in> set ss. map_of (data st) s \<noteq> None" by simp
  from Cons.IH [OF this, of ?d1] obtain d where d: "xlits_outer lower st t_xlits ?d1 ss = Inr d"
    and l: "\<And>s. map_of d s =
          (if s \<in> set ss
           then Some (stars_of ?d1 s
                  @ replicate (count_list ss s * star_count lower t_xlits (snd (the (map_of (data st) s)))) 42)
           else map_of ?d1 s)"
    by blast
  have r: "xlits_outer lower st t_xlits s_dict (s0 # ss) = Inr d" using e d by simp
  have "map_of d s =
          (if s \<in> set (s0 # ss)
           then Some (stars_of s_dict s
                  @ replicate (count_list (s0 # ss) s * star_count lower t_xlits (snd (the (map_of (data st) s)))) 42)
           else map_of s_dict s)" for s
  proof (cases "s = s0")
    case True
    show ?thesis
    proof (cases "s0 \<in> set ss")
      case m: True
      with True l [of s0] e show ?thesis
        by (simp add: stars_of_xlits_inner [OF assms(1)] replicate_add [symmetric])
    next
      case m: False
      with True l [of s0] e show ?thesis
        by (simp add: xlits_inner_lookup assms(1))
    qed
  next
    case False
    with l [of s] show ?thesis
      by (simp add: stars_of_xlits_inner [OF assms(1)] xlits_inner_lookup)
  qed
  with r show ?case by blast
qed

lemma compare_xlits_entries:
  assumes "map_of (data st) target = Some (freq, t_xlits)" "t_xlits \<noteq> []"
    and "\<forall>s \<in> set suggestions. map_of (data st) s \<noteq> None"
  shows "\<exists>out. compare_xlits lower st target suggestions = Inr out
     \<and> (\<forall>s \<in> set suggestions.
          s @ replicate (count_list suggestions s
                 * star_count lower t_xlits (snd (the (map_of (data st) s)))) 42 \<in> set out)"
proof -
  from xlits_outer_lookup [OF assms(2,3), of lower "[]"] obtain d
    where d: "xlits_outer lower st t_xlits [] suggestions = Inr d"
      and l: "\<And>s. s \<in> set suggestions \<Longrightarrow> map_of d s =
           Some (replicate (count_list suggestions s
                   * star_count lower t_xlits (snd (the (map_of (data st) s)))) 42)"
    by (auto simp: stars_of_def)
  have out: "compare_xlits lower st target suggestions = Inr (map (\<lambda>(x, stars). x @ stars) d)"
    using assms(1) d by (simp add: compare_xlits_def)
  have "s @ replicate (count_list suggestions s
                 * star_count lower t_xlits (snd (the (map_of (data st) s)))) 42
          \<in> set (map (\<lambda>(x, stars). x @ stars) d)" if "s \<in> set suggestions" for s
  proof -
    from l [OF that] have "(s, replicate (count_list suggestions s
                 * star_count lower t_xlits (snd (the (map_of (data st) s)))) 42) \<in> set d"
      by (rule map_of_SomeD)
    then show ?thesis by force
  qed
  with out show ?thesis by blast
qed

lemma compare_xlits_no_spellings:
  assumes "map_of (data st) target = Some (freq, [])"
  shows "compare_xlits lower st target suggestions = Inr []
     \<or> compare_xlits lower st target suggestions = Inl KeyError"
proof -
  have "xlits_outer lower st [] [] suggestions = Inr [] \<or> xlits_outer lower st [] [] suggestions = Inl KeyError"
    by (induction suggestions) (auto split: option.splits)
  with assms show ?thesis by (auto simp: compare_xlits_def)
qed

text \<open>
  Claim C7. For a target with at least one spelling every candidate has an entry, with one
  star for each matching target spelling (\<open>compare_xlits_entries\<close> above). For a target
  without spellings, as every lemma of a store read from a plain list of names is, the
  loop over the target's spellings never runs and no candidate has an entry: the
  output for the target \<open>Aba\<close> and the candidate \<open>Aia\<close> is empty.
\<close>

theorem compare_xlits_drops_candidates:
  "fst (read_file decimal (cps ''names.txt'') (cps ''Aba'' @ [10] @ cps ''Aia'') (cps ''names'') initial)
     = Inr plain_names
   \<and> compare_xlits lower (initial\<lparr>data := plain_names\<rparr>) (cps ''Aba'') [cps ''Aia''] = Inr []"
  by (simp add: read_file_def py_splitlines_def is_linebreak_def plain_names_def compare_xlits_def Let_def)

end
